theory Spec2Isabelle
  imports Complex_Main "HOL-Library.Multiset"
begin

section \<open>Session state machine (session/state-machine.ts)\<close>

subsection \<open>Phases, events, actions\<close>

text \<open>
  \<^verbatim>\<open>type Phase = 'active' | 'idle' | 'ended'\<close> is a union of string literals:
  a constructor per literal, and \<open>phaseName\<close> gives the string a phase is at run time.
\<close>

datatype Phase = Active | Idle | Ended

fun phaseName :: "Phase \<Rightarrow> string" where
  "phaseName Active = ''active''"
| "phaseName Idle = ''idle''"
| "phaseName Ended = ''ended''"

text \<open>\<open>phaseFromString(s: string | undefined)\<close>: \<open>None\<close> is \<open>undefined\<close>.\<close>

definition phaseFromString :: "string option \<Rightarrow> Phase" where
  "phaseFromString s =
     (if s = Some ''active'' \<or> s = Some ''active_committed'' then Active
      else if s = Some ''idle'' then Idle
      else if s = Some ''ended'' then Ended
      else Idle)"

datatype StateMachineEvent =
  TurnStart | TurnEnd | GitCommit | SessionStart | SessionStop | Compaction

datatype Action =
  Condense | CondenseIfFilesTouched | DiscardIfNoFiles | WarnStaleSession
  | ClearEndedAt | UpdateLastInteraction

record TransitionContext =
  hasFilesTouched :: bool
  isRebaseInProgress :: bool

record TransitionResult =
  newPhase :: Phase
  actions :: "Action list"

subsection \<open>The transition function\<close>

fun transitionFromIdle :: "StateMachineEvent \<Rightarrow> TransitionContext \<Rightarrow> TransitionResult" where
  "transitionFromIdle TurnStart ctx = \<lparr>newPhase = Active, actions = [UpdateLastInteraction]\<rparr>"
| "transitionFromIdle TurnEnd ctx = \<lparr>newPhase = Idle, actions = []\<rparr>"
| "transitionFromIdle GitCommit ctx =
     (if isRebaseInProgress ctx then \<lparr>newPhase = Idle, actions = []\<rparr>
      else \<lparr>newPhase = Idle, actions = [Condense, UpdateLastInteraction]\<rparr>)"
| "transitionFromIdle SessionStart ctx = \<lparr>newPhase = Idle, actions = []\<rparr>"
| "transitionFromIdle SessionStop ctx = \<lparr>newPhase = Ended, actions = [UpdateLastInteraction]\<rparr>"
| "transitionFromIdle Compaction ctx =
     \<lparr>newPhase = Idle, actions = [CondenseIfFilesTouched, UpdateLastInteraction]\<rparr>"

fun transitionFromActive :: "StateMachineEvent \<Rightarrow> TransitionContext \<Rightarrow> TransitionResult" where
  "transitionFromActive TurnStart ctx = \<lparr>newPhase = Active, actions = [UpdateLastInteraction]\<rparr>"
| "transitionFromActive TurnEnd ctx = \<lparr>newPhase = Idle, actions = [UpdateLastInteraction]\<rparr>"
| "transitionFromActive GitCommit ctx =
     (if isRebaseInProgress ctx then \<lparr>newPhase = Active, actions = []\<rparr>
      else \<lparr>newPhase = Active, actions = [Condense, UpdateLastInteraction]\<rparr>)"
| "transitionFromActive SessionStart ctx = \<lparr>newPhase = Active, actions = [WarnStaleSession]\<rparr>"
| "transitionFromActive SessionStop ctx = \<lparr>newPhase = Ended, actions = [UpdateLastInteraction]\<rparr>"
| "transitionFromActive Compaction ctx =
     \<lparr>newPhase = Active, actions = [CondenseIfFilesTouched, UpdateLastInteraction]\<rparr>"

fun transitionFromEnded :: "StateMachineEvent \<Rightarrow> TransitionContext \<Rightarrow> TransitionResult" where
  "transitionFromEnded TurnStart ctx =
     \<lparr>newPhase = Active, actions = [ClearEndedAt, UpdateLastInteraction]\<rparr>"
| "transitionFromEnded TurnEnd ctx = \<lparr>newPhase = Ended, actions = []\<rparr>"
| "transitionFromEnded GitCommit ctx =
     (if isRebaseInProgress ctx then \<lparr>newPhase = Ended, actions = []\<rparr>
      else if hasFilesTouched ctx
        then \<lparr>newPhase = Ended, actions = [CondenseIfFilesTouched, UpdateLastInteraction]\<rparr>
      else \<lparr>newPhase = Ended, actions = [DiscardIfNoFiles, UpdateLastInteraction]\<rparr>)"
| "transitionFromEnded SessionStart ctx = \<lparr>newPhase = Idle, actions = [ClearEndedAt]\<rparr>"
| "transitionFromEnded SessionStop ctx = \<lparr>newPhase = Ended, actions = []\<rparr>"
| "transitionFromEnded Compaction ctx = \<lparr>newPhase = Ended, actions = []\<rparr>"

text \<open>
  \<open>transition\<close> first normalises its phase argument through \<open>phaseFromString\<close>, then
  dispatches on the normalised phase.
\<close>

definition transition ::
  "Phase \<Rightarrow> StateMachineEvent \<Rightarrow> TransitionContext \<Rightarrow> TransitionResult" where
  "transition current event ctx =
     (case phaseFromString (Some (phaseName current)) of
        Idle \<Rightarrow> transitionFromIdle event ctx
      | Active \<Rightarrow> transitionFromActive event ctx
      | Ended \<Rightarrow> transitionFromEnded event ctx)"

subsection \<open>Applying a transition\<close>

text \<open>
  \<open>StateMachineState\<close> is a mutable object; the optional fields are \<open>option\<close>s
  (\<open>None\<close> is \<open>undefined\<close>).
\<close>

record StateMachineState =
  sessionID :: string
  phase :: Phase
  filesTouched :: "string list"
  lastInteractionTime :: "string option"
  endedAt :: "string option"

text \<open>
  A handler is an asynchronous method that receives the state object and may mutate it,
  may act on the outside world (the checkpoint store, the operator's terminal) and may
  throw. Here it is a function of the state and of a world \<open>'w\<close> that returns what it
  threw (if anything) together with the state and the world as it left them.

  The catch block turns what was thrown into an \<open>Error\<close>:
  \<^verbatim>\<open>handlerErr = e instanceof Error ? e : new Error(String(e))\<close>. A thrown value
  is an \<open>Error\<close> object (represented by its message), or another value that
  \<open>String\<close> converts (represented by its \<open>String(e)\<close>), or another value on which
  \<open>String(e)\<close> itself throws, such as an object without a prototype (represented by
  what the conversion throws). In the last case the catch block throws in its turn:
  \<open>toError\<close> gives \<open>Inl\<close> of what it throws.
\<close>

datatype thrown = ThrownError string | ThrownOther string | ThrownUnconvertible string

datatype Error = Error string

fun toError :: "thrown \<Rightarrow> string + Error" where
  "toError (ThrownError m) = Inr (Error m)"
| "toError (ThrownOther s) = Inr (Error s)"
| "toError (ThrownUnconvertible y) = Inl y"

type_synonym 'w handlerFn =
  "StateMachineState \<Rightarrow> 'w \<Rightarrow> thrown option \<times> StateMachineState \<times> 'w"

record 'w ActionHandler =
  handleCondense :: "'w handlerFn"
  handleCondenseIfFilesTouched :: "'w handlerFn"
  handleDiscardIfNoFiles :: "'w handlerFn"
  handleWarnStaleSession :: "'w handlerFn"

text \<open>
  \<open>applyTransition\<close> is an async function: its promise resolves with the handler error
  or null (\<open>Returned\<close>), or rejects with what escaped from its body (\<open>Rejected\<close>).
\<close>

datatype outcome = Returned "Error option" | Rejected string

text \<open>
  The guarded call that every handler-backed case of the switch performs:
  \<^verbatim>\<open>if (!handlerErr) { try { await f(state) } catch (e) { handlerErr = ... } }\<close>.
  \<open>Inr\<close> is the loop going on with the state, the world and \<open>handlerErr\<close>; \<open>Inl\<close> is
  an exception leaving the loop, with the state and the world as they are then.
\<close>

definition guardedCall ::
  "'w handlerFn \<Rightarrow> StateMachineState \<times> 'w \<times> Error option
     \<Rightarrow> (StateMachineState \<times> 'w \<times> string) + (StateMachineState \<times> 'w \<times> Error option)" where
  "guardedCall f acc =
     (case acc of (st, w, handlerErr) \<Rightarrow>
        (case handlerErr of
           Some e \<Rightarrow> Inr (st, w, Some e)
         | None \<Rightarrow>
             (case f st w of
                (None, st', w') \<Rightarrow> Inr (st', w', None)
              | (Some x, st', w') \<Rightarrow>
                  (case toError x of
                     Inr e \<Rightarrow> Inr (st', w', Some e)
                   | Inl y \<Rightarrow> Inl (st', w', y)))))"

text \<open>
  One iteration of the loop over \<open>result.actions\<close>. \<open>clock\<close> is
  \<^verbatim>\<open>new Date().toISOString()\<close>: reading the time off the world.
\<close>

fun applyAction ::
  "'w ActionHandler \<Rightarrow> ('w \<Rightarrow> string \<times> 'w) \<Rightarrow> Action
     \<Rightarrow> StateMachineState \<times> 'w \<times> Error option
     \<Rightarrow> (StateMachineState \<times> 'w \<times> string) + (StateMachineState \<times> 'w \<times> Error option)" where
  "applyAction h clock UpdateLastInteraction (st, w, handlerErr) =
     (case clock w of (t, w') \<Rightarrow> Inr (st\<lparr>lastInteractionTime := Some t\<rparr>, w', handlerErr))"
| "applyAction h clock ClearEndedAt (st, w, handlerErr) =
     Inr (st\<lparr>endedAt := None\<rparr>, w, handlerErr)"
| "applyAction h clock Condense acc = guardedCall (handleCondense h) acc"
| "applyAction h clock CondenseIfFilesTouched acc =
     guardedCall (handleCondenseIfFilesTouched h) acc"
| "applyAction h clock DiscardIfNoFiles acc = guardedCall (handleDiscardIfNoFiles h) acc"
| "applyAction h clock WarnStaleSession acc = guardedCall (handleWarnStaleSession h) acc"

text \<open>The loop, and \<open>return handlerErr\<close> after it.\<close>

fun applyActions ::
  "'w ActionHandler \<Rightarrow> ('w \<Rightarrow> string \<times> 'w) \<Rightarrow> Action list
     \<Rightarrow> StateMachineState \<times> 'w \<times> Error option
     \<Rightarrow> StateMachineState \<times> 'w \<times> outcome" where
  "applyActions h clock [] (st, w, handlerErr) = (st, w, Returned handlerErr)"
| "applyActions h clock (a # as) acc =
     (case applyAction h clock a acc of
        Inl (st, w, y) \<Rightarrow> (st, w, Rejected y)
      | Inr acc' \<Rightarrow> applyActions h clock as acc')"

text \<open>
  \<open>applyTransition\<close> leaves its effects in the state object and the world: the model
  returns both, with the outcome of the promise.
\<close>

definition applyTransition ::
  "'w ActionHandler \<Rightarrow> ('w \<Rightarrow> string \<times> 'w) \<Rightarrow> StateMachineState \<Rightarrow> 'w
     \<Rightarrow> TransitionResult \<Rightarrow> StateMachineState \<times> 'w \<times> outcome" where
  "applyTransition h clock state w result =
     applyActions h clock (actions result) (state\<lparr>phase := newPhase result\<rparr>, w, None)"

subsection \<open>Notions for stating what the harness does\<close>

text \<open>
  The handler that backs an action, if one does; the two field mutations have none.
\<close>

fun handlerFor :: "'w ActionHandler \<Rightarrow> Action \<Rightarrow> 'w handlerFn option" where
  "handlerFor h Condense = Some (handleCondense h)"
| "handlerFor h CondenseIfFilesTouched = Some (handleCondenseIfFilesTouched h)"
| "handlerFor h DiscardIfNoFiles = Some (handleDiscardIfNoFiles h)"
| "handlerFor h WarnStaleSession = Some (handleWarnStaleSession h)"
| "handlerFor h ClearEndedAt = None"
| "handlerFor h UpdateLastInteraction = None"

fun isFieldMutation :: "Action \<Rightarrow> bool" where
  "isFieldMutation ClearEndedAt = True"
| "isFieldMutation UpdateLastInteraction = True"
| "isFieldMutation a = False"

text \<open>
  \<open>fieldMutations\<close> walks a list of actions and performs only \<open>UpdateLastInteraction\<close>
  and \<open>ClearEndedAt\<close>; it calls no handler.
\<close>

fun fieldMutations ::
  "('w \<Rightarrow> string \<times> 'w) \<Rightarrow> Action list \<Rightarrow> StateMachineState \<times> 'w
     \<Rightarrow> StateMachineState \<times> 'w" where
  "fieldMutations clock [] sw = sw"
| "fieldMutations clock (UpdateLastInteraction # as) (st, w) =
     (case clock w of (t, w') \<Rightarrow>
        fieldMutations clock as (st\<lparr>lastInteractionTime := Some t\<rparr>, w'))"
| "fieldMutations clock (ClearEndedAt # as) (st, w) =
     fieldMutations clock as (st\<lparr>endedAt := None\<rparr>, w)"
| "fieldMutations clock (a # as) sw = fieldMutations clock as sw"

text \<open>
  A handler keeps the lifecycle fields when it leaves \<open>phase\<close>, \<open>lastInteractionTime\<close>
  and \<open>endedAt\<close> of the state object as it found them.
\<close>

definition keepsLifecycleFields :: "'w handlerFn \<Rightarrow> bool" where
  "keepsLifecycleFields f =
     (\<forall>st w. phase (fst (snd (f st w))) = phase st
        \<and> lastInteractionTime (fst (snd (f st w))) = lastInteractionTime st
        \<and> endedAt (fst (snd (f st w))) = endedAt st)"

definition handlersKeepLifecycleFields :: "'w ActionHandler \<Rightarrow> bool" where
  "handlersKeepLifecycleFields h =
     (keepsLifecycleFields (handleCondense h)
      \<and> keepsLifecycleFields (handleCondenseIfFilesTouched h)
      \<and> keepsLifecycleFields (handleDiscardIfNoFiles h)
      \<and> keepsLifecycleFields (handleWarnStaleSession h))"

subsection \<open>Sample handlers\<close>

text \<open>
  Sample inputs for running the harness: a session that has ended, a clock, and three
  handlers whose \<open>handleCondense\<close> throws. The first throws a string; the second
  throws an object that \<open>String\<close> cannot convert; the third writes \<open>phase\<close> and
  \<open>endedAt\<close> of the state it is handed and then throws an \<open>Error\<close>. The world is a
  counter of the handler calls made.
\<close>

definition sampleState :: StateMachineState where
  "sampleState =
     \<lparr>sessionID = ''s1'', phase = Ended, filesTouched = [''a.ts''],
      lastInteractionTime = None, endedAt = Some ''2026-01-01T00:00:00.000Z''\<rparr>"

definition sampleClock :: "nat \<Rightarrow> string \<times> nat" where
  "sampleClock w = (if w = 0 then ''T0'' else ''T1'', w)"

definition failingCondense :: "nat ActionHandler" where
  "failingCondense =
     \<lparr>handleCondense = (\<lambda>st w. (Some (ThrownOther ''store unavailable''), st, Suc w)),
      handleCondenseIfFilesTouched = (\<lambda>st w. (None, st, Suc w)),
      handleDiscardIfNoFiles = (\<lambda>st w. (None, st, Suc w)),
      handleWarnStaleSession = (\<lambda>st w. (None, st, Suc w))\<rparr>"

definition unconvertibleCondense :: "nat ActionHandler" where
  "unconvertibleCondense =
     \<lparr>handleCondense =
        (\<lambda>st w. (Some (ThrownUnconvertible
                         ''TypeError: Cannot convert object to primitive value''),
                 st, Suc w)),
      handleCondenseIfFilesTouched = (\<lambda>st w. (None, st, Suc w)),
      handleDiscardIfNoFiles = (\<lambda>st w. (None, st, Suc w)),
      handleWarnStaleSession = (\<lambda>st w. (None, st, Suc w))\<rparr>"

definition overwritingCondense :: "nat ActionHandler" where
  "overwritingCondense =
     \<lparr>handleCondense =
        (\<lambda>st w. (Some (ThrownError ''condense failed''),
                 st\<lparr>phase := Idle, endedAt := Some ''2026-02-02T00:00:00.000Z''\<rparr>, Suc w)),
      handleCondenseIfFilesTouched = (\<lambda>st w. (None, st, Suc w)),
      handleDiscardIfNoFiles = (\<lambda>st w. (None, st, Suc w)),
      handleWarnStaleSession = (\<lambda>st w. (None, st, Suc w))\<rparr>"

section \<open>Counting and comparing lines (\<open>countLines\<close> of the string utilities, \<open>diffLines\<close> of the attribution logic)\<close>

text \<open>
  A JavaScript string is a list of characters here, and a JavaScript number that holds
  a count is an \<open>int\<close>: sums and differences are written as the source has them, and
  that a number does not go below zero is proved where it holds, not assumed.
\<close>

abbreviation NL :: char where "NL \<equiv> CHR 0x0A"

text \<open>The loop of \<open>countLines\<close> that counts the newline characters.\<close>

primrec countNewlines :: "string \<Rightarrow> int" where
  "countNewlines [] = 0"
| "countNewlines (c # cs) = (if c = NL then 1 else 0) + countNewlines cs"

text \<open>\<^verbatim>\<open>content.endsWith('\n')\<close>\<close>

definition endsWithNL :: "string \<Rightarrow> bool" where
  "endsWithNL content = (content \<noteq> [] \<and> last content = NL)"

definition countLines :: "string \<Rightarrow> int" where
  "countLines content =
     (if content = [] then 0
      else countNewlines content + (if endsWithNL content then 0 else 1))"

text \<open>
  \<^verbatim>\<open>content.split('\n')\<close>: the pieces between newlines; one piece (the empty one) for
  the empty string. The \<open>[]\<close> branch of the \<open>case\<close> is never taken, as \<open>splitNL\<close>
  returns at least one piece.
\<close>

fun splitNL :: "string \<Rightarrow> string list" where
  "splitNL [] = [[]]"
| "splitNL (c # cs) =
     (if c = NL then [] # splitNL cs
      else (case splitNL cs of [] \<Rightarrow> [[c]] | l # ls \<Rightarrow> (c # l) # ls))"

text \<open>
  \<^verbatim>\<open>if (lines[lines.length - 1] === '' && content.endsWith('\n')) lines.pop()\<close>
\<close>

definition popTrailingEmpty :: "string \<Rightarrow> string list \<Rightarrow> string list" where
  "popTrailingEmpty content ls =
     (if ls \<noteq> [] \<and> last ls = [] \<and> endsWithNL content then butlast ls else ls)"

text \<open>
  \<open>oldSet\<close> and \<open>matchedOld\<close> are \<open>Map<string, number>\<close>, read only through
  \<^verbatim>\<open>m.get(line) ?? 0\<close>: maps, with \<open>getOr0\<close> for the read.
\<close>

definition getOr0 :: "(string \<rightharpoonup> int) \<Rightarrow> string \<Rightarrow> int" where
  "getOr0 m k = (case m k of None \<Rightarrow> 0 | Some n \<Rightarrow> n)"

fun countOld :: "string list \<Rightarrow> (string \<rightharpoonup> int) \<Rightarrow> (string \<rightharpoonup> int)" where
  "countOld [] oldSet = oldSet"
| "countOld (l # ls) oldSet = countOld ls (oldSet(l \<mapsto> getOr0 oldSet l + 1))"

fun matchNew ::
  "(string \<rightharpoonup> int) \<Rightarrow> string list \<Rightarrow> int \<times> (string \<rightharpoonup> int)
     \<Rightarrow> int \<times> (string \<rightharpoonup> int)" where
  "matchNew oldSet [] acc = acc"
| "matchNew oldSet (l # ls) (unchanged, matchedOld) =
     (let available = getOr0 oldSet l - getOr0 matchedOld l
      in if available > 0
         then matchNew oldSet ls (unchanged + 1, matchedOld(l \<mapsto> getOr0 matchedOld l + 1))
         else matchNew oldSet ls (unchanged, matchedOld))"

text \<open>\<open>diffLines\<close> returns \<open>[unchanged, added, removed]\<close>.\<close>

definition diffLines :: "string \<Rightarrow> string \<Rightarrow> int \<times> int \<times> int" where
  "diffLines oldContent newContent =
     (if oldContent = newContent then (countLines newContent, 0, 0)
      else if oldContent = [] then (0, countLines newContent, 0)
      else if newContent = [] then (0, 0, countLines oldContent)
      else
        (let oldLines = popTrailingEmpty oldContent (splitNL oldContent);
             newLines = popTrailingEmpty newContent (splitNL newContent);
             oldSet = countOld oldLines Map.empty;
             unchanged = fst (matchNew oldSet newLines (0, Map.empty));
             removed = int (length oldLines) - unchanged;
             added = int (length newLines) - unchanged
         in (unchanged, added, removed)))"

subsection \<open>The line list of a content\<close>

text \<open>
  \<open>splitLines\<close> is the line list as the specification words it: split on newline, and
  drop the trailing empty element that a terminal newline produces. It gives the empty
  string one line, the empty one. \<open>linesOf\<close> differs there only: the empty string has
  no line, which is what the guards at the head of \<open>countLines\<close> and \<open>diffLines\<close> make
  of it.
\<close>

definition splitLines :: "string \<Rightarrow> string list" where
  "splitLines content = popTrailingEmpty content (splitNL content)"

definition linesOf :: "string \<Rightarrow> string list" where
  "linesOf content = (if content = [] then [] else splitLines content)"

section \<open>Attribution at commit time (the attribution logic)\<close>

text \<open>
  \<open>Map<string, string>\<close> (path to content) is the list of its entries in insertion
  order: \<open>map_of\<close> is \<open>get\<close>, the list order is the iteration order. A JavaScript map
  has no key twice; the properties below are proved for every such list, with or
  without repeated keys.
\<close>

type_synonym files = "(string \<times> string) list"

text \<open>\<^verbatim>\<open>files.get(filePath) ?? ''\<close>\<close>

definition contentOr :: "files \<Rightarrow> string \<Rightarrow> string" where
  "contentOr m filePath = (case map_of m filePath of None \<Rightarrow> [] | Some c \<Rightarrow> c)"

text \<open>
  \<open>Map.set\<close>: an existing key keeps its place and takes the new value, a new key goes
  to the end. \<open>numOr0\<close> is \<^verbatim>\<open>m.get(k) ?? 0\<close> on a map of numbers, and \<open>setAdd\<close> is
  \<open>Set.add\<close> on a set kept as the list of its elements in insertion order.
\<close>

fun mapSet :: "'k \<Rightarrow> 'v \<Rightarrow> ('k \<times> 'v) list \<Rightarrow> ('k \<times> 'v) list" where
  "mapSet k v [] = [(k, v)]"
| "mapSet k v ((k', v') # kvs) =
     (if k' = k then (k, v) # kvs else (k', v') # mapSet k v kvs)"

definition numOr0 :: "(string \<times> int) list \<Rightarrow> string \<Rightarrow> int" where
  "numOr0 m k = (case map_of m k of None \<Rightarrow> 0 | Some n \<Rightarrow> n)"

definition setAdd :: "'a \<Rightarrow> 'a list \<Rightarrow> 'a list" where
  "setAdd x xs = (if x \<in> set xs then xs else xs @ [x])"

text \<open>\<open>getAllChangedFiles\<close>: its two loops, then the function.\<close>

fun changedIn1 :: "files \<Rightarrow> files \<Rightarrow> string list \<Rightarrow> string list" where
  "changedIn1 [] tree2 changed = changed"
| "changedIn1 ((path, hash1) # es) tree2 changed =
     (case map_of tree2 path of
        None \<Rightarrow> changedIn1 es tree2 (setAdd path changed)
      | Some hash2 \<Rightarrow>
          if hash1 \<noteq> hash2 then changedIn1 es tree2 (setAdd path changed)
          else changedIn1 es tree2 changed)"

fun changedIn2 :: "string list \<Rightarrow> files \<Rightarrow> string list \<Rightarrow> string list" where
  "changedIn2 [] tree1 changed = changed"
| "changedIn2 (path # ps) tree1 changed =
     (if map_of tree1 path = None then changedIn2 ps tree1 (setAdd path changed)
      else changedIn2 ps tree1 changed)"

definition getAllChangedFiles :: "files \<Rightarrow> files \<Rightarrow> string list" where
  "getAllChangedFiles tree1 tree2 =
     changedIn2 (map fst tree2) tree1 (changedIn1 tree1 tree2 [])"

text \<open>
  The fields of a \<open>PromptAttribution\<close> are numbers: \<open>int\<close>, as every other count.
  \<open>userAddedPerFile\<close> is a \<open>Record<string, number>\<close>, the list of its entries as
  \<open>Object.entries\<close> gives them.
\<close>

record PromptAttribution =
  checkpointNumber :: int
  userLinesAdded :: int
  userLinesRemoved :: int
  agentLinesAdded :: int
  agentLinesRemoved :: int
  userAddedPerFile :: "(string \<times> int) list"

text \<open>
  \<open>agentPercentage\<close> is a quotient: a rational here, where the source has a double.
\<close>

record InitialAttribution =
  calculatedAt :: string
  agentLines :: int
  humanAdded :: int
  humanModified :: int
  humanRemoved :: int
  totalCommitted :: int
  agentPercentage :: rat

text \<open>The loop over \<open>promptAttributions\<close>, and its inner loop over the entries.\<close>

fun addEntries ::
  "(string \<times> int) list \<Rightarrow> (string \<times> int) list \<Rightarrow> (string \<times> int) list" where
  "addEntries [] perFile = perFile"
| "addEntries ((filePath, added) # es) perFile =
     addEntries es (mapSet filePath (numOr0 perFile filePath + added) perFile)"

fun accumulate ::
  "PromptAttribution list \<Rightarrow> int \<times> (string \<times> int) list
     \<Rightarrow> int \<times> (string \<times> int) list" where
  "accumulate [] acc = acc"
| "accumulate (pa # pas) (accumulatedUserRemoved, perFile) =
     accumulate pas
       (accumulatedUserRemoved + userLinesRemoved pa,
        addEntries (userAddedPerFile pa) perFile)"

text \<open>
  The loop over \<open>filesTouched\<close>. Its accumulator is \<open>totalAgentAndUserWork\<close>,
  \<open>postCheckpointUserAdded\<close>, \<open>postCheckpointUserRemoved\<close> and the map
  \<open>postCheckpointUserRemovedPerFile\<close>.
\<close>

fun touchedLoop ::
  "files \<Rightarrow> files \<Rightarrow> files \<Rightarrow> string list \<Rightarrow> int \<times> int \<times> int \<times> (string \<times> int) list
     \<Rightarrow> int \<times> int \<times> int \<times> (string \<times> int) list" where
  "touchedLoop baseFiles shadowFiles headFiles [] acc = acc"
| "touchedLoop baseFiles shadowFiles headFiles (filePath # fs)
     (totalAgentAndUserWork, postCheckpointUserAdded, postCheckpointUserRemoved, removedPerFile) =
     (let baseContent = contentOr baseFiles filePath;
          shadowContent = contentOr shadowFiles filePath;
          headContent = contentOr headFiles filePath;
          workAdded = fst (snd (diffLines baseContent shadowContent));
          postUserAdded = fst (snd (diffLines shadowContent headContent));
          postUserRemoved = snd (snd (diffLines shadowContent headContent))
      in touchedLoop baseFiles shadowFiles headFiles fs
           (totalAgentAndUserWork + workAdded,
            postCheckpointUserAdded + postUserAdded,
            postCheckpointUserRemoved + postUserRemoved,
            if postUserRemoved > 0 then mapSet filePath postUserRemoved removedPerFile
            else removedPerFile))"

text \<open>The loop over the changed files that the agent did not touch.\<close>

fun nonAgentLoop :: "files \<Rightarrow> files \<Rightarrow> string list \<Rightarrow> string list \<Rightarrow> int \<Rightarrow> int" where
  "nonAgentLoop baseFiles headFiles touched [] allUserEdits = allUserEdits"
| "nonAgentLoop baseFiles headFiles touched (filePath # fs) allUserEdits =
     (if filePath \<in> set touched then nonAgentLoop baseFiles headFiles touched fs allUserEdits
      else
        (let baseContent = contentOr baseFiles filePath;
             headContent = contentOr headFiles filePath;
             userAdded = fst (snd (diffLines baseContent headContent))
         in nonAgentLoop baseFiles headFiles touched fs (allUserEdits + userAdded)))"

text \<open>The loop that separates the accumulated additions by kind of file.\<close>

fun separateLoop ::
  "string list \<Rightarrow> string list \<Rightarrow> (string \<times> int) list \<Rightarrow> int \<times> int \<Rightarrow> int \<times> int" where
  "separateLoop touched committedNonAgent [] acc = acc"
| "separateLoop touched committedNonAgent ((filePath, added) # es)
     (accumulatedToAgentFiles, accumulatedToCommittedNonAgentFiles) =
     (if filePath \<in> set touched
      then separateLoop touched committedNonAgent es
             (accumulatedToAgentFiles + added, accumulatedToCommittedNonAgentFiles)
      else if filePath \<in> set committedNonAgent
      then separateLoop touched committedNonAgent es
             (accumulatedToAgentFiles, accumulatedToCommittedNonAgentFiles + added)
      else separateLoop touched committedNonAgent es
             (accumulatedToAgentFiles, accumulatedToCommittedNonAgentFiles))"

text \<open>\<open>estimateUserSelfModifications\<close>: its loop, then the function.\<close>

fun selfModifiedLoop :: "(string \<times> int) list \<Rightarrow> (string \<times> int) list \<Rightarrow> int \<Rightarrow> int" where
  "selfModifiedLoop addedPerFile [] selfModified = selfModified"
| "selfModifiedLoop addedPerFile ((filePath, removed) # es) selfModified =
     (let userAddedToFile = numOr0 addedPerFile filePath
      in selfModifiedLoop addedPerFile es (selfModified + min removed userAddedToFile))"

definition estimateUserSelfModifications ::
  "(string \<times> int) list \<Rightarrow> (string \<times> int) list \<Rightarrow> int" where
  "estimateUserSelfModifications accumulatedUserAddedPerFile postCheckpointUserRemovedPerFile =
     selfModifiedLoop accumulatedUserAddedPerFile postCheckpointUserRemovedPerFile 0"

text \<open>
  \<open>calculateAttributionWithAccumulated\<close> in two parts. \<open>attributionTotals\<close> is the body
  down to the call of \<open>estimateUserSelfModifications\<close>: it runs the loops and yields the
  four quantities that the rest of the body works from, under the names the source
  gives them. \<open>finalSplit\<close> is the rest of the body, down to the returned object;
  \<open>now\<close> is \<^verbatim>\<open>new Date().toISOString()\<close>.
\<close>

record Totals =
  totalAgentAdded :: int
  totalUserAdded :: int
  totalUserRemoved :: int
  userSelfModified :: int

definition attributionTotals ::
  "files \<Rightarrow> files \<Rightarrow> files \<Rightarrow> string list \<Rightarrow> PromptAttribution list \<Rightarrow> Totals" where
  "attributionTotals baseFiles shadowFiles headFiles touched promptAttributions =
     (case accumulate promptAttributions (0, []) of
        (accumulatedUserRemoved, accumulatedUserAddedPerFile) \<Rightarrow>
     (case touchedLoop baseFiles shadowFiles headFiles touched (0, 0, 0, []) of
        (totalAgentAndUserWork, postCheckpointUserAdded, postCheckpointUserRemoved,
         postCheckpointUserRemovedPerFile) \<Rightarrow>
     (let nonAgentFiles = getAllChangedFiles baseFiles headFiles;
          allUserEditsToNonAgentFiles =
            nonAgentLoop baseFiles headFiles touched nonAgentFiles 0;
          committedNonAgentSet = filter (\<lambda>f. f \<notin> set touched) nonAgentFiles
      in (case separateLoop touched committedNonAgentSet accumulatedUserAddedPerFile (0, 0) of
        (accumulatedToAgentFiles, accumulatedToCommittedNonAgentFiles) \<Rightarrow>
     (let postToNonAgentFiles =
            max 0 (allUserEditsToNonAgentFiles - accumulatedToCommittedNonAgentFiles);
          relevantAccumulatedUser =
            accumulatedToAgentFiles + accumulatedToCommittedNonAgentFiles
      in \<lparr>totalAgentAdded = max 0 (totalAgentAndUserWork - accumulatedToAgentFiles),
          totalUserAdded =
            relevantAccumulatedUser + postCheckpointUserAdded + postToNonAgentFiles,
          totalUserRemoved = accumulatedUserRemoved + postCheckpointUserRemoved,
          userSelfModified =
            estimateUserSelfModifications accumulatedUserAddedPerFile
              postCheckpointUserRemovedPerFile\<rparr>)))))"

definition finalSplit :: "string \<Rightarrow> Totals \<Rightarrow> InitialAttribution" where
  "finalSplit now t =
     (let totalHumanModified = min (totalUserAdded t) (totalUserRemoved t);
          humanModifiedAgent = max 0 (totalHumanModified - userSelfModified t);
          pureUserAdded = totalUserAdded t - totalHumanModified;
          pureUserRemoved = totalUserRemoved t - totalHumanModified;
          totalCommitted0 = totalAgentAdded t + pureUserAdded - pureUserRemoved;
          totalCommitted1 =
            (if totalCommitted0 \<le> 0 then max 0 (totalAgentAdded t) else totalCommitted0);
          agentLinesInCommit =
            max 0 (totalAgentAdded t - pureUserRemoved - humanModifiedAgent);
          agentPercentage1 =
            (if totalCommitted1 > 0
             then (of_int agentLinesInCommit / of_int totalCommitted1) * 100
             else 0)
      in \<lparr>calculatedAt = now,
          agentLines = agentLinesInCommit,
          humanAdded = pureUserAdded,
          humanModified = totalHumanModified,
          humanRemoved = pureUserRemoved,
          totalCommitted = totalCommitted1,
          agentPercentage = agentPercentage1\<rparr>)"

definition calculateAttributionWithAccumulated ::
  "string \<Rightarrow> files \<Rightarrow> files \<Rightarrow> files \<Rightarrow> string list \<Rightarrow> PromptAttribution list
     \<Rightarrow> InitialAttribution option" where
  "calculateAttributionWithAccumulated now baseFiles shadowFiles headFiles touched
     promptAttributions =
     (if length touched = 0 then None
      else Some (finalSplit now
                   (attributionTotals baseFiles shadowFiles headFiles touched
                      promptAttributions)))"



text \<open>
  A turn in which the human added one line to \<open>f\<close>: the prompt attribution that
  \<open>calculatePromptAttribution\<close> records for it. And a prompt attribution that no turn
  produces, with a negative number of removed lines.
\<close>

definition humanAddedOneLine :: PromptAttribution where
  "humanAddedOneLine =
     \<lparr>checkpointNumber = 1, userLinesAdded = 1, userLinesRemoved = 0,
      agentLinesAdded = 0, agentLinesRemoved = 0, userAddedPerFile = [(''f'', 1)]\<rparr>"


section \<open>Content overlap detection\<close>

text \<open>
  \<open>String.prototype.trim\<close> removes white space and line terminators from both ends;
  of the characters a \<open>char\<close> can hold these are tab, line feed, vertical tab, form
  feed, carriage return, space and no-break space.
\<close>

definition isWhitespace :: "char \<Rightarrow> bool" where
  "isWhitespace c = (of_char c \<in> {9, 10, 11, 12, 13, 32, 160 :: nat})"

definition trim :: "string \<Rightarrow> string" where
  "trim s = rev (dropWhile isWhitespace (rev (dropWhile isWhitespace s)))"

text \<open>
  \<open>extractSignificantLines\<close> builds a \<open>Set<string>\<close>: the list of its elements in
  insertion order, \<open>length\<close> for \<open>size\<close>.
\<close>

fun extractLoop :: "string list \<Rightarrow> string list \<Rightarrow> string list" where
  "extractLoop [] lines = lines"
| "extractLoop (line # rest) lines =
     (let trimmed = trim line
      in if length trimmed \<ge> 10 then extractLoop rest (setAdd trimmed lines)
         else extractLoop rest lines)"

definition extractSignificantLines :: "string \<Rightarrow> string list" where
  "extractSignificantLines content = extractLoop (splitNL content) []"

text \<open>The counting loop of \<open>hasSignificantContentOverlap\<close>, with its early return.\<close>

fun matchLoop :: "string list \<Rightarrow> string list \<Rightarrow> nat \<Rightarrow> nat \<Rightarrow> bool" where
  "matchLoop [] shadowLines requiredMatches matchCount = False"
| "matchLoop (line # rest) shadowLines requiredMatches matchCount =
     (if line \<in> set shadowLines
      then (if matchCount + 1 \<ge> requiredMatches then True
            else matchLoop rest shadowLines requiredMatches (matchCount + 1))
      else matchLoop rest shadowLines requiredMatches matchCount)"

definition hasSignificantContentOverlap :: "string \<Rightarrow> string \<Rightarrow> bool" where
  "hasSignificantContentOverlap stagedContent shadowContent =
     (let shadowLines = extractSignificantLines shadowContent;
          stagedLines = extractSignificantLines stagedContent
      in if length shadowLines = 0 \<or> length stagedLines = 0 then False
         else
           (let isVerySmallFile = (length shadowLines < 2 \<or> length stagedLines < 2);
                requiredMatches = (if isVerySmallFile then 1 else 2)
            in matchLoop stagedLines shadowLines requiredMatches 0))"

text \<open>
  The significant lines of a content as the specification words them: the distinct
  trimmed lines of at least 10 characters.
\<close>

definition significantLines :: "string \<Rightarrow> string set" where
  "significantLines content = {t \<in> trim ` set (splitNL content). 10 \<le> length t}"

subsection \<open>\<open>filesOverlapWithContent\<close>\<close>

text \<open>
  \<open>gitSafe\<close> is imported from git-operations, which is not among the sources: it is a
  parameter here, a function from the argument list of a git command to its output, or
  \<open>None\<close> (null) when the command fails. The repository does not change during one
  call of \<open>filesOverlapWithContent\<close>.

  \<open>existsInParent\<close> is the test the loop makes in both of its branches:
  \<^verbatim>\<open>if (parentCommitHash) { parentContent = await gitSafe(['show', ...]);\<close>
  \<^verbatim>\<open>... parentContent !== null }\<close>. The guard is a truthiness test, which null and the
  empty string fail.
\<close>

type_synonym gitSafe = "string list \<Rightarrow> string option"

definition existsInParent :: "gitSafe \<Rightarrow> string option \<Rightarrow> string \<Rightarrow> bool" where
  "existsInParent git parentCommitHash filePath =
     (case parentCommitHash of
        None \<Rightarrow> False
      | Some p \<Rightarrow>
          if p = [] then False
          else (case git [''show'', p @ '':'' @ filePath] of
                  None \<Rightarrow> False
                | Some parentContent \<Rightarrow> True))"

text \<open>
  \<^verbatim>\<open>headHash !== null && shadowHash !== null && headHash.trim() === shadowHash.trim()\<close>
\<close>

definition sameHash :: "string option \<Rightarrow> string option \<Rightarrow> bool" where
  "sameHash headHash shadowHash =
     (case headHash of
        None \<Rightarrow> False
      | Some hh \<Rightarrow>
          (case shadowHash of None \<Rightarrow> False | Some sh \<Rightarrow> trim hh = trim sh))"

text \<open>
  The loop over \<open>filesTouched\<close>: \<open>True\<close> is \<open>return true\<close>, the recursive call is
  \<open>continue\<close> or the end of the loop body. A content is truthy when it is not empty.
\<close>

fun overlapLoop ::
  "gitSafe \<Rightarrow> string \<Rightarrow> string \<Rightarrow> string option \<Rightarrow> string list \<Rightarrow> bool" where
  "overlapLoop git shadowBranchName headCommitHash parentCommitHash [] = False"
| "overlapLoop git shadowBranchName headCommitHash parentCommitHash (filePath # rest) =
     (case git [''show'', headCommitHash @ '':'' @ filePath] of
        None \<Rightarrow>
          if existsInParent git parentCommitHash filePath then True
          else overlapLoop git shadowBranchName headCommitHash parentCommitHash rest
      | Some headContent \<Rightarrow>
          if existsInParent git parentCommitHash filePath then True
          else
            (case git [''show'', ''refs/heads/'' @ shadowBranchName @ '':'' @ filePath] of
               None \<Rightarrow> overlapLoop git shadowBranchName headCommitHash parentCommitHash rest
             | Some shadowContent \<Rightarrow>
                 if sameHash (git [''rev-parse'', headCommitHash @ '':'' @ filePath])
                      (git [''rev-parse'',
                            ''refs/heads/'' @ shadowBranchName @ '':'' @ filePath])
                 then True
                 else if headContent \<noteq> [] \<and> shadowContent \<noteq> []
                      \<and> hasSignificantContentOverlap headContent shadowContent
                 then True
                 else overlapLoop git shadowBranchName headCommitHash parentCommitHash rest))"

definition filesOverlapWithContent ::
  "gitSafe \<Rightarrow> string \<Rightarrow> string \<Rightarrow> string option \<Rightarrow> string list \<Rightarrow> bool" where
  "filesOverlapWithContent git shadowBranchName headCommitHash parentCommitHash touched =
     (if length touched = 0 then False
      else overlapLoop git shadowBranchName headCommitHash parentCommitHash touched)"

text \<open>
  A repository in which the parent commit \<open>p1\<close> has \<open>old.ts\<close>, and the head commit
  \<open>h1\<close> has deleted it and added \<open>new.ts\<close>; there is no shadow branch.
\<close>

definition sampleRepo :: gitSafe where
  "sampleRepo args =
     (if args = [''show'', ''p1:old.ts''] then Some ''export const a = 1\<newline>''
      else if args = [''show'', ''h1:new.ts''] then Some ''{\<newline>}\<newline>''
      else None)"

section \<open>Properties of the state machine\<close>

text \<open>
  C5. From \<open>ended\<close>, a \<open>GitCommit\<close> outside a rebase stays in \<open>ended\<close>; the actions
  are \<open>[CondenseIfFilesTouched, UpdateLastInteraction]\<close> when files were touched and
  \<open>[DiscardIfNoFiles, UpdateLastInteraction]\<close> when none were.
\<close>

theorem transition_ended_GitCommit:
  "\<not> isRebaseInProgress ctx \<Longrightarrow>
   transition Ended GitCommit ctx =
     (if hasFilesTouched ctx
      then \<lparr>newPhase = Ended, actions = [CondenseIfFilesTouched, UpdateLastInteraction]\<rparr>
      else \<lparr>newPhase = Ended, actions = [DiscardIfNoFiles, UpdateLastInteraction]\<rparr>)"
  by (simp add: transition_def phaseFromString_def)

theorem transition_ended_GitCommit_witness:
  "transition Ended GitCommit \<lparr>hasFilesTouched = False, isRebaseInProgress = False\<rparr> =
     \<lparr>newPhase = Ended, actions = [DiscardIfNoFiles, UpdateLastInteraction]\<rparr>
   \<and> transition Ended GitCommit \<lparr>hasFilesTouched = True, isRebaseInProgress = False\<rparr> =
     \<lparr>newPhase = Ended, actions = [CondenseIfFilesTouched, UpdateLastInteraction]\<rparr>"
  using transition_ended_GitCommit
          [of "\<lparr>hasFilesTouched = False, isRebaseInProgress = False\<rparr>"]
        transition_ended_GitCommit
          [of "\<lparr>hasFilesTouched = True, isRebaseInProgress = False\<rparr>"]
  by simp

text \<open>
  C6. From \<open>idle\<close> and from \<open>active\<close>, a \<open>GitCommit\<close> while a rebase is in progress
  leaves the phase as it is and asks for no action at all.
\<close>

theorem transition_GitCommit_rebase:
  "p = Idle \<or> p = Active \<Longrightarrow> isRebaseInProgress ctx \<Longrightarrow>
   transition p GitCommit ctx = \<lparr>newPhase = p, actions = []\<rparr>"
  by (auto simp add: transition_def phaseFromString_def)

theorem transition_GitCommit_rebase_witness:
  "transition Active GitCommit \<lparr>hasFilesTouched = True, isRebaseInProgress = True\<rparr> =
     \<lparr>newPhase = Active, actions = []\<rparr>
   \<and> transition Idle GitCommit \<lparr>hasFilesTouched = False, isRebaseInProgress = True\<rparr> =
     \<lparr>newPhase = Idle, actions = []\<rparr>"
  using transition_GitCommit_rebase
          [of Active "\<lparr>hasFilesTouched = True, isRebaseInProgress = True\<rparr>"]
        transition_GitCommit_rebase
          [of Idle "\<lparr>hasFilesTouched = False, isRebaseInProgress = True\<rparr>"]
  by simp

subsection \<open>The harness\<close>

text \<open>Once an error is recorded, the rest of the list calls no handler.\<close>

lemma applyActions_after_error:
  "applyActions h clock as (st, w, Some e) =
     (case fieldMutations clock as (st, w) of (st', w') \<Rightarrow> (st', w', Returned (Some e)))"
proof (induction as arbitrary: st w)
  case Nil
  show ?case by simp
next
  case (Cons a as)
  show ?case
    by (cases a) (simp_all add: guardedCall_def Cons.IH split: prod.splits)
qed

lemma applyActions_fieldOnly:
  "list_all isFieldMutation as \<Longrightarrow>
   applyActions h clock as (st, w, err) =
     (case fieldMutations clock as (st, w) of (st', w') \<Rightarrow> (st', w', Returned err))"
proof (induction as arbitrary: st w)
  case Nil
  show ?case by simp
next
  case (Cons a as)
  then show ?case
    by (cases a) (simp_all split: prod.splits)
qed

lemma applyActions_append:
  "applyActions h clock (xs @ ys) acc =
     (case applyActions h clock xs acc of
        (st, w, Returned err) \<Rightarrow> applyActions h clock ys (st, w, err)
      | (st, w, Rejected y) \<Rightarrow> (st, w, Rejected y))"
proof (induction xs arbitrary: acc)
  case Nil
  show ?case by (cases acc) simp
next
  case (Cons x xs)
  show ?case
    by (cases "applyAction h clock x acc") (auto simp: Cons.IH)
qed

lemma applyAction_handlerFor:
  "handlerFor h a = Some f \<Longrightarrow> applyAction h clock a acc = guardedCall f acc"
  by (cases a) auto

text \<open>What the field mutations of a list do to the three lifecycle fields.\<close>

lemma fieldMutations_phase: "phase (fst (fieldMutations clock as (st, w))) = phase st"
  by (induction clock as "(st, w)" arbitrary: st w rule: fieldMutations.induct)
     (simp_all split: prod.splits)

lemma fieldMutations_endedAt:
  "endedAt (fst (fieldMutations clock as (st, w))) =
     (if ClearEndedAt \<in> set as then None else endedAt st)"
  by (induction clock as "(st, w)" arbitrary: st w rule: fieldMutations.induct)
     (simp_all split: prod.splits)

lemma fieldMutations_lastInteractionTime:
  "UpdateLastInteraction \<in> set as \<or> (\<exists>w0. lastInteractionTime st = Some (fst (clock w0))) \<Longrightarrow>
   \<exists>w0. lastInteractionTime (fst (fieldMutations clock as (st, w))) = Some (fst (clock w0))"
proof (induction clock as "(st, w)" arbitrary: st w rule: fieldMutations.induct)
  case (2 clock as st w)
  obtain t w' where c: "clock w = (t, w')" by (cases "clock w")
  have "\<exists>w0. lastInteractionTime (st\<lparr>lastInteractionTime := Some t\<rparr>) = Some (fst (clock w0))"
    using c by (auto intro: exI [of _ w])
  then show ?case using "2.hyps" [of t w'] c by simp
qed (auto split: prod.splits)

lemma fieldMutations_lastInteractionTime_kept:
  "UpdateLastInteraction \<notin> set as \<Longrightarrow>
   lastInteractionTime (fst (fieldMutations clock as (st, w))) = lastInteractionTime st"
  by (induction clock as "(st, w)" arbitrary: st w rule: fieldMutations.induct)
     (simp_all split: prod.splits)

text \<open>
  A run that returns ends with the field mutations of any handler-free tail of its list.
\<close>

lemma applyActions_tail:
  assumes "applyActions h clock (p1 @ p2) acc = (st1, w1, Returned r)"
    and "list_all isFieldMutation p2"
  shows "\<exists>s w'. fieldMutations clock p2 (s, w') = (st1, w1)"
proof (cases "applyActions h clock p1 acc")
  case (fields s w' out)
  show ?thesis
  proof (cases out)
    case (Returned err)
    then have "applyActions h clock p2 (s, w', err) = (st1, w1, Returned r)"
      using assms(1) fields by (simp add: applyActions_append)
    then have "fieldMutations clock p2 (s, w') = (st1, w1)"
      using applyActions_fieldOnly [OF assms(2), of h clock s w' err]
      by (cases "fieldMutations clock p2 (s, w')") simp
    then show ?thesis by blast
  next
    case (Rejected y)
    then show ?thesis
      using assms(1) fields by (simp add: applyActions_append)
  qed
qed

text \<open>What one iteration does to the lifecycle fields when the handlers keep them.\<close>

lemma guardedCall_fields:
  assumes "keepsLifecycleFields f"
    and "guardedCall f (st, w, e) = Inr (st1, w1, e1)"
  shows "phase st1 = phase st \<and> lastInteractionTime st1 = lastInteractionTime st
         \<and> endedAt st1 = endedAt st"
proof (cases e)
  case (Some err)
  then show ?thesis using assms(2) by (simp add: guardedCall_def)
next
  case None
  obtain r st' w' where call: "f st w = (r, st', w')" by (cases "f st w")
  have kept: "phase st' = phase st \<and> lastInteractionTime st' = lastInteractionTime st
         \<and> endedAt st' = endedAt st"
    using assms(1) call unfolding keepsLifecycleFields_def
    by (auto dest!: spec [of _ st] spec [of _ w])
  have "st1 = st'"
    using assms(2) None call
    by (auto simp: guardedCall_def split: option.splits sum.splits)
  then show ?thesis using kept by simp
qed

lemma applyAction_fields:
  assumes "handlersKeepLifecycleFields h"
    and "applyAction h clock a (st, w, e) = Inr (st1, w1, e1)"
  shows "phase st1 = phase st"
    and "endedAt st1 = (if a = ClearEndedAt then None else endedAt st)"
    and "lastInteractionTime st1 =
           (if a = UpdateLastInteraction then Some (fst (clock w))
            else lastInteractionTime st)"
proof -
  have all: "phase st1 = phase st
      \<and> endedAt st1 = (if a = ClearEndedAt then None else endedAt st)
      \<and> lastInteractionTime st1 =
           (if a = UpdateLastInteraction then Some (fst (clock w))
            else lastInteractionTime st)"
  proof (cases a)
    case Condense
    then show ?thesis
      using assms guardedCall_fields [of "handleCondense h" st w e st1 w1 e1]
      by (simp add: handlersKeepLifecycleFields_def)
  next
    case CondenseIfFilesTouched
    then show ?thesis
      using assms guardedCall_fields [of "handleCondenseIfFilesTouched h" st w e st1 w1 e1]
      by (simp add: handlersKeepLifecycleFields_def)
  next
    case DiscardIfNoFiles
    then show ?thesis
      using assms guardedCall_fields [of "handleDiscardIfNoFiles h" st w e st1 w1 e1]
      by (simp add: handlersKeepLifecycleFields_def)
  next
    case WarnStaleSession
    then show ?thesis
      using assms guardedCall_fields [of "handleWarnStaleSession h" st w e st1 w1 e1]
      by (simp add: handlersKeepLifecycleFields_def)
  next
    case ClearEndedAt
    then show ?thesis using assms(2) by auto
  next
    case UpdateLastInteraction
    then show ?thesis using assms(2) by (auto split: prod.splits)
  qed
  then show "phase st1 = phase st"
    and "endedAt st1 = (if a = ClearEndedAt then None else endedAt st)"
    and "lastInteractionTime st1 =
           (if a = UpdateLastInteraction then Some (fst (clock w))
            else lastInteractionTime st)"
    by simp_all
qed

lemma applyActions_fields:
  assumes "handlersKeepLifecycleFields h"
    and "applyActions h clock as (st, w, e) = (st', w', Returned r)"
  shows "phase st' = phase st"
    and "endedAt st' = (if ClearEndedAt \<in> set as then None else endedAt st)"
    and "UpdateLastInteraction \<in> set as \<or> (\<exists>w0. lastInteractionTime st = Some (fst (clock w0)))
           \<Longrightarrow> \<exists>w0. lastInteractionTime st' = Some (fst (clock w0))"
  using assms(2)
proof (induction as arbitrary: st w e)
  case Nil
  { case 1 then show ?case by simp }
  { case 2 then show ?case by simp }
  { case 3 then show ?case by simp }
next
  case (Cons a as)
  { case 1
    then obtain st1 w1 e1 where
      step: "applyAction h clock a (st, w, e) = Inr (st1, w1, e1)"
      and rest: "applyActions h clock as (st1, w1, e1) = (st', w', Returned r)"
      by (auto split: sum.splits)
    show ?case
      using Cons.IH(1) [OF rest] applyAction_fields(1) [OF assms(1) step] by simp }
  { case 2
    then obtain st1 w1 e1 where
      step: "applyAction h clock a (st, w, e) = Inr (st1, w1, e1)"
      and rest: "applyActions h clock as (st1, w1, e1) = (st', w', Returned r)"
      by (auto split: sum.splits)
    show ?case
      using Cons.IH(2) [OF rest] applyAction_fields(2) [OF assms(1) step] by auto }
  { case 3
    from "3"(2) obtain st1 w1 e1 where
      step: "applyAction h clock a (st, w, e) = Inr (st1, w1, e1)"
      and rest: "applyActions h clock as (st1, w1, e1) = (st', w', Returned r)"
      by (auto split: sum.splits)
    have "UpdateLastInteraction \<in> set as
        \<or> (\<exists>w0. lastInteractionTime st1 = Some (fst (clock w0)))"
      using "3"(1) applyAction_fields(3) [OF assms(1) step] by auto
    then show ?case
      using Cons.IH(3) [OF _ rest] by simp }
qed

text \<open>
  C7. The claim is what the docstring of \<open>applyTransition\<close> promises (common actions
  always run, handler actions stop on first error), and the code keeps it whenever
  the catch block can make an \<open>Error\<close> of what was thrown. It breaks it when
  \<open>String(e)\<close> throws. On a commit in an active session (actions \<open>Condense\<close>,
  \<open>UpdateLastInteraction\<close>), a \<open>handleCondense\<close> that throws an object without a
  prototype makes \<open>applyTransition\<close> reject: no error is returned and
  \<open>UpdateLastInteraction\<close> is not performed. The same run with a thrown string
  returns the error and performs it.
\<close>

theorem applyTransition_rejects_on_unconvertible:
  "applyTransition unconvertibleCondense sampleClock sampleState 0
     (transition Active GitCommit \<lparr>hasFilesTouched = True, isRebaseInProgress = False\<rparr>) =
     (sampleState\<lparr>phase := Active\<rparr>, 1,
      Rejected ''TypeError: Cannot convert object to primitive value'')
   \<and> applyTransition failingCondense sampleClock sampleState 0
     (transition Active GitCommit \<lparr>hasFilesTouched = True, isRebaseInProgress = False\<rparr>) =
     (sampleState\<lparr>phase := Active, lastInteractionTime := Some ''T1''\<rparr>, 1,
      Returned (Some (Error ''store unavailable'')))"
  by (simp add: applyTransition_def transition_def phaseFromString_def guardedCall_def
        unconvertibleCondense_def failingCondense_def sampleClock_def sampleState_def)

text \<open>
  C10, as stated, fails for a handler that writes the lifecycle fields itself. With
  the actions \<open>ClearEndedAt\<close>, \<open>Condense\<close>, \<open>UpdateLastInteraction\<close> and the new phase
  \<open>active\<close>, a \<open>handleCondense\<close> that sets \<open>phase\<close> and \<open>endedAt\<close> and then throws
  leaves its own values in the state that \<open>applyTransition\<close> returns the error with:
  the phase is not the new phase and \<open>endedAt\<close> is not cleared.
\<close>

theorem applyTransition_overwritten_counterexample:
  "applyTransition overwritingCondense sampleClock sampleState 0
     \<lparr>newPhase = Active, actions = [ClearEndedAt, Condense, UpdateLastInteraction]\<rparr> =
     (sampleState\<lparr>phase := Idle, endedAt := Some ''2026-02-02T00:00:00.000Z'',
                  lastInteractionTime := Some ''T1''\<rparr>, 1,
      Returned (Some (Error ''condense failed'')))
   \<and> phase (fst (applyTransition overwritingCondense sampleClock sampleState 0
        \<lparr>newPhase = Active, actions = [ClearEndedAt, Condense, UpdateLastInteraction]\<rparr>))
       \<noteq> Active
   \<and> endedAt (fst (applyTransition overwritingCondense sampleClock sampleState 0
        \<lparr>newPhase = Active, actions = [ClearEndedAt, Condense, UpdateLastInteraction]\<rparr>))
       \<noteq> None"
  by (simp add: applyTransition_def guardedCall_def overwritingCondense_def sampleClock_def
        sampleState_def)

text \<open>
  C10, amended. The phase is assigned before any action runs: the outcome does not
  depend on the phase the state had. When a handler-backed action \<open>a\<close> of the list
  throws a value \<open>x\<close> that the catch block makes the error \<open>e\<close> of (the actions
  \<open>pre\<close> before it having run without an error, leaving the state \<open>st1\<close>), then for
  every handler:
  \<^item> \<open>applyTransition\<close> returns \<open>e\<close>, and the state it leaves is the state \<open>st2\<close> that
    the failing handler left with the field mutations of the rest of the list
    performed on it and nothing else: the phase is that of \<open>st2\<close>, \<open>endedAt\<close> is
    cleared if \<open>ClearEndedAt\<close> comes after \<open>a\<close> and is that of \<open>st2\<close> otherwise, and
    likewise for \<open>lastInteractionTime\<close>;
  \<^item> the mutations before \<open>a\<close> were performed on the state that the handlers were
    handed: a \<open>ClearEndedAt\<close> or \<open>UpdateLastInteraction\<close> of \<open>pre\<close> that no
    handler-backed action follows in \<open>pre\<close> shows in \<open>st1\<close>, and so does the new phase
    when \<open>pre\<close> has no handler-backed action.
  For handlers that leave \<open>phase\<close>, \<open>lastInteractionTime\<close> and \<open>endedAt\<close> alone, the
  state returned with the error has the new phase, has \<open>endedAt\<close> cleared when
  \<open>ClearEndedAt\<close> is anywhere in the list, and carries a clock reading in
  \<open>lastInteractionTime\<close> when \<open>UpdateLastInteraction\<close> is anywhere in the list.
\<close>

theorem applyTransition_no_rollback:
  assumes "actions result = pre @ a # post"
    and "applyActions h clock pre (state\<lparr>phase := newPhase result\<rparr>, w, None) =
           (st1, w1, Returned None)"
    and "handlerFor h a = Some f"
    and "f st1 w1 = (Some x, st2, w2)"
    and "toError x = Inr e"
  shows "applyTransition h clock state w result =
           applyTransition h clock (state\<lparr>phase := newPhase result\<rparr>) w result
    \<and> applyTransition h clock state w result =
         (fst (fieldMutations clock post (st2, w2)), snd (fieldMutations clock post (st2, w2)),
          Returned (Some e))
    \<and> phase (fst (applyTransition h clock state w result)) = phase st2
    \<and> endedAt (fst (applyTransition h clock state w result)) =
         (if ClearEndedAt \<in> set post then None else endedAt st2)
    \<and> (UpdateLastInteraction \<in> set post \<longrightarrow>
         (\<exists>w0. lastInteractionTime (fst (applyTransition h clock state w result)) =
            Some (fst (clock w0))))
    \<and> (UpdateLastInteraction \<notin> set post \<longrightarrow>
         lastInteractionTime (fst (applyTransition h clock state w result)) =
           lastInteractionTime st2)
    \<and> (list_all isFieldMutation pre \<longrightarrow> phase st1 = newPhase result)
    \<and> (\<forall>p1 p2. pre = p1 @ ClearEndedAt # p2 \<and> list_all isFieldMutation p2 \<longrightarrow>
           endedAt st1 = None)
    \<and> (\<forall>p1 p2. pre = p1 @ UpdateLastInteraction # p2 \<and> list_all isFieldMutation p2 \<longrightarrow>
           (\<exists>w0. lastInteractionTime st1 = Some (fst (clock w0))))
    \<and> (handlersKeepLifecycleFields h \<longrightarrow>
         phase (fst (applyTransition h clock state w result)) = newPhase result
         \<and> (ClearEndedAt \<in> set (actions result) \<longrightarrow>
              endedAt (fst (applyTransition h clock state w result)) = None)
         \<and> (UpdateLastInteraction \<in> set (actions result) \<longrightarrow>
              (\<exists>w0. lastInteractionTime (fst (applyTransition h clock state w result)) =
                 Some (fst (clock w0)))))"
proof -
  let ?init = "(state\<lparr>phase := newPhase result\<rparr>, w, None :: Error option)"
  obtain st' w' where fm: "fieldMutations clock post (st2, w2) = (st', w')"
    by (cases "fieldMutations clock post (st2, w2)")
  have step: "applyAction h clock a (st1, w1, None) = Inr (st2, w2, Some e)"
    using assms(3,4,5) by (simp add: applyAction_handlerFor guardedCall_def)
  have run: "applyTransition h clock state w result = (st', w', Returned (Some e))"
    using assms(1,2) step
    by (simp add: applyTransition_def applyActions_append applyActions_after_error fm)
  have first: "applyTransition h clock state w result =
           applyTransition h clock (state\<lparr>phase := newPhase result\<rparr>) w result"
    by (simp add: applyTransition_def)
  have ph: "phase st' = phase st2"
    using fieldMutations_phase [of clock post st2 w2] fm by simp
  have en: "endedAt st' = (if ClearEndedAt \<in> set post then None else endedAt st2)"
    using fieldMutations_endedAt [of clock post st2 w2] fm by simp
  have li: "UpdateLastInteraction \<in> set post \<longrightarrow>
      (\<exists>w0. lastInteractionTime st' = Some (fst (clock w0)))"
    using fieldMutations_lastInteractionTime [of post st2 clock w2] fm by simp
  have li': "UpdateLastInteraction \<notin> set post \<longrightarrow>
      lastInteractionTime st' = lastInteractionTime st2"
    using fieldMutations_lastInteractionTime_kept [of post clock st2 w2] fm by simp
  have before_phase: "list_all isFieldMutation pre \<longrightarrow> phase st1 = newPhase result"
  proof
    assume "list_all isFieldMutation pre"
    then have "fieldMutations clock pre (state\<lparr>phase := newPhase result\<rparr>, w) = (st1, w1)"
      using assms(2)
        applyActions_fieldOnly [of pre h clock "state\<lparr>phase := newPhase result\<rparr>" w None]
      by (cases "fieldMutations clock pre (state\<lparr>phase := newPhase result\<rparr>, w)") simp
    then show "phase st1 = newPhase result"
      using fieldMutations_phase [of clock pre "state\<lparr>phase := newPhase result\<rparr>" w]
      by simp
  qed
  have before_ended: "\<forall>p1 p2. pre = p1 @ ClearEndedAt # p2 \<and> list_all isFieldMutation p2 \<longrightarrow>
      endedAt st1 = None"
  proof (intro allI impI)
    fix p1 p2
    assume split: "pre = p1 @ ClearEndedAt # p2 \<and> list_all isFieldMutation p2"
    then have whole: "applyActions h clock (p1 @ (ClearEndedAt # p2)) ?init =
        (st1, w1, Returned None)"
      and tailOnly: "list_all isFieldMutation (ClearEndedAt # p2)"
      using assms(2) by simp_all
    from applyActions_tail [OF whole tailOnly]
    obtain s w0 where "fieldMutations clock (ClearEndedAt # p2) (s, w0) = (st1, w1)"
      by blast
    then show "endedAt st1 = None"
      using fieldMutations_endedAt [of clock "ClearEndedAt # p2" s w0] by simp
  qed
  have before_time: "\<forall>p1 p2. pre = p1 @ UpdateLastInteraction # p2
      \<and> list_all isFieldMutation p2 \<longrightarrow>
      (\<exists>w0. lastInteractionTime st1 = Some (fst (clock w0)))"
  proof (intro allI impI)
    fix p1 p2
    assume split: "pre = p1 @ UpdateLastInteraction # p2 \<and> list_all isFieldMutation p2"
    then have whole: "applyActions h clock (p1 @ (UpdateLastInteraction # p2)) ?init =
        (st1, w1, Returned None)"
      and tailOnly: "list_all isFieldMutation (UpdateLastInteraction # p2)"
      using assms(2) by simp_all
    from applyActions_tail [OF whole tailOnly]
    obtain s w0 where
      tail: "fieldMutations clock (UpdateLastInteraction # p2) (s, w0) = (st1, w1)"
      by blast
    have "\<exists>w'. lastInteractionTime
        (fst (fieldMutations clock (UpdateLastInteraction # p2) (s, w0))) = Some (fst (clock w'))"
      by (rule fieldMutations_lastInteractionTime) simp
    then show "\<exists>w0. lastInteractionTime st1 = Some (fst (clock w0))"
      using tail by simp
  qed
  have kept: "handlersKeepLifecycleFields h \<longrightarrow>
         phase st' = newPhase result
         \<and> (ClearEndedAt \<in> set (actions result) \<longrightarrow> endedAt st' = None)
         \<and> (UpdateLastInteraction \<in> set (actions result) \<longrightarrow>
              (\<exists>w0. lastInteractionTime st' = Some (fst (clock w0))))"
  proof
    assume keep: "handlersKeepLifecycleFields h"
    have whole: "applyActions h clock (actions result) ?init = (st', w', Returned (Some e))"
      using run by (simp add: applyTransition_def)
    show "phase st' = newPhase result
         \<and> (ClearEndedAt \<in> set (actions result) \<longrightarrow> endedAt st' = None)
         \<and> (UpdateLastInteraction \<in> set (actions result) \<longrightarrow>
              (\<exists>w0. lastInteractionTime st' = Some (fst (clock w0))))"
      using applyActions_fields(1) [OF keep whole] applyActions_fields(2) [OF keep whole]
        applyActions_fields(3) [OF keep whole]
      by simp
  qed
  have rest: "applyTransition h clock state w result =
         (fst (fieldMutations clock post (st2, w2)), snd (fieldMutations clock post (st2, w2)),
          Returned (Some e))
    \<and> phase (fst (applyTransition h clock state w result)) = phase st2
    \<and> endedAt (fst (applyTransition h clock state w result)) =
         (if ClearEndedAt \<in> set post then None else endedAt st2)
    \<and> (UpdateLastInteraction \<in> set post \<longrightarrow>
         (\<exists>w0. lastInteractionTime (fst (applyTransition h clock state w result)) =
            Some (fst (clock w0))))
    \<and> (UpdateLastInteraction \<notin> set post \<longrightarrow>
         lastInteractionTime (fst (applyTransition h clock state w result)) =
           lastInteractionTime st2)
    \<and> (list_all isFieldMutation pre \<longrightarrow> phase st1 = newPhase result)
    \<and> (\<forall>p1 p2. pre = p1 @ ClearEndedAt # p2 \<and> list_all isFieldMutation p2 \<longrightarrow>
           endedAt st1 = None)
    \<and> (\<forall>p1 p2. pre = p1 @ UpdateLastInteraction # p2 \<and> list_all isFieldMutation p2 \<longrightarrow>
           (\<exists>w0. lastInteractionTime st1 = Some (fst (clock w0))))
    \<and> (handlersKeepLifecycleFields h \<longrightarrow>
         phase (fst (applyTransition h clock state w result)) = newPhase result
         \<and> (ClearEndedAt \<in> set (actions result) \<longrightarrow>
              endedAt (fst (applyTransition h clock state w result)) = None)
         \<and> (UpdateLastInteraction \<in> set (actions result) \<longrightarrow>
              (\<exists>w0. lastInteractionTime (fst (applyTransition h clock state w result)) =
                 Some (fst (clock w0)))))"
    using ph en li li' before_phase before_ended before_time kept
    by (simp add: run fm)
  show ?thesis
    by (rule conjI [OF first rest])
qed

text \<open>
  The run behind the witness: \<open>ClearEndedAt\<close> comes before the \<open>Condense\<close> that
  throws; the \<open>WarnStaleSession\<close> after it is not called (the world counts one call),
  and the \<open>UpdateLastInteraction\<close> after it is performed.
\<close>

theorem applyTransition_no_rollback_witness:
  "handlersKeepLifecycleFields failingCondense
   \<and> applyTransition failingCondense sampleClock sampleState 0
        \<lparr>newPhase = Active,
         actions = [ClearEndedAt, Condense, WarnStaleSession, UpdateLastInteraction]\<rparr> =
      (sampleState\<lparr>phase := Active, endedAt := None, lastInteractionTime := Some ''T1''\<rparr>,
       1, Returned (Some (Error ''store unavailable'')))
   \<and> phase (fst (applyTransition failingCondense sampleClock sampleState 0
        \<lparr>newPhase = Active,
         actions = [ClearEndedAt, Condense, WarnStaleSession, UpdateLastInteraction]\<rparr>)) = Active
   \<and> endedAt (fst (applyTransition failingCondense sampleClock sampleState 0
        \<lparr>newPhase = Active,
         actions = [ClearEndedAt, Condense, WarnStaleSession, UpdateLastInteraction]\<rparr>)) = None"
proof -
  let ?res = "\<lparr>newPhase = Active,
         actions = [ClearEndedAt, Condense, WarnStaleSession, UpdateLastInteraction]\<rparr>"
  let ?st1 = "sampleState\<lparr>phase := Active, endedAt := None\<rparr>"
  have keep: "handlersKeepLifecycleFields failingCondense"
    by (simp add: handlersKeepLifecycleFields_def keepsLifecycleFields_def failingCondense_def)
  have dec: "actions ?res = [ClearEndedAt] @ Condense # [WarnStaleSession, UpdateLastInteraction]"
    by simp
  have pre: "applyActions failingCondense sampleClock [ClearEndedAt]
      (sampleState\<lparr>phase := newPhase ?res\<rparr>, 0, None) = (?st1, 0, Returned None)"
    by simp
  have hf: "handlerFor failingCondense Condense = Some (handleCondense failingCondense)"
    by simp
  have throws: "handleCondense failingCondense ?st1 0 =
       (Some (ThrownOther ''store unavailable''), ?st1, 1)"
    by (simp add: failingCondense_def)
  have conv: "toError (ThrownOther ''store unavailable'') = Inr (Error ''store unavailable'')"
    by simp
  note inst = applyTransition_no_rollback [OF dec pre hf throws conv]
  have run: "applyTransition failingCondense sampleClock sampleState 0 ?res =
      (sampleState\<lparr>phase := Active, endedAt := None, lastInteractionTime := Some ''T1''\<rparr>,
       1, Returned (Some (Error ''store unavailable'')))"
    using inst [THEN conjunct2, THEN conjunct1]
    by (simp add: sampleClock_def)
  show ?thesis
    using keep run by simp
qed

section \<open>Properties of \<open>diffLines\<close>\<close>

lemma splitNL_nonempty: "splitNL s \<noteq> []"
  by (induction s) (auto split: list.splits)

lemma length_splitNL: "int (length (splitNL s)) = countNewlines s + 1"
  by (induction s) (auto split: list.splits simp: splitNL_nonempty)

lemma splitNL_snoc_NL: "splitNL (s @ [NL]) = splitNL s @ [[]]"
  by (induction s) (auto split: list.splits simp: splitNL_nonempty)

lemma last_splitNL_snoc: "c \<noteq> NL \<Longrightarrow> last (splitNL (s @ [c])) \<noteq> []"
  by (induction s) (auto split: list.splits simp: splitNL_nonempty)

lemma last_splitNL: "last (splitNL s) = [] \<longleftrightarrow> s = [] \<or> last s = NL"
proof (cases s rule: rev_cases)
  case Nil
  then show ?thesis by simp
next
  case (snoc cs c)
  then show ?thesis
    using splitNL_snoc_NL [of cs] last_splitNL_snoc [of c cs] by (cases "c = NL") auto
qed

text \<open>For a content that is not empty, \<open>countLines\<close> is the length of its line list.\<close>

lemma length_splitLines: "s \<noteq> [] \<Longrightarrow> int (length (splitLines s)) = countLines s"
proof -
  assume ne: "s \<noteq> []"
  have len: "int (length (splitNL s)) = countNewlines s + 1"
    by (rule length_splitNL)
  have pos: "length (splitNL s) \<ge> 1"
    using splitNL_nonempty [of s] by (cases "splitNL s") auto
  show ?thesis
  proof (cases "last s = NL")
    case True
    then have "splitLines s = butlast (splitNL s)"
      using ne last_splitNL [of s] splitNL_nonempty [of s]
      by (simp add: splitLines_def popTrailingEmpty_def endsWithNL_def)
    moreover have "int (length (butlast (splitNL s))) = countNewlines s"
      using len pos by (simp add: of_nat_diff)
    ultimately show ?thesis
      using True ne by (simp add: countLines_def endsWithNL_def)
  next
    case False
    then have "splitLines s = splitNL s"
      by (simp add: splitLines_def popTrailingEmpty_def endsWithNL_def)
    then show ?thesis
      using False ne len by (simp add: countLines_def endsWithNL_def)
  qed
qed

lemma length_linesOf: "int (length (linesOf s)) = countLines s"
  by (cases "s = []") (simp_all add: linesOf_def length_splitLines countLines_def)

text \<open>The two maps of the loop against the multisets they stand for.\<close>

lemma getOr0_countOld:
  "getOr0 (countOld ls m) k = getOr0 m k + int (count (mset ls) k)"
  by (induction ls arbitrary: m) (auto simp: getOr0_def)

lemma matchNew_inter:
  "(\<And>k. getOr0 oldSet k - getOr0 m k = int (count R k)) \<Longrightarrow>
   fst (matchNew oldSet ls (u, m)) = u + int (size (R \<inter># mset ls))"
proof (induction ls arbitrary: u m R)
  case Nil
  show ?case by simp
next
  case (Cons l ls)
  show ?case
  proof (cases "l \<in># R")
    case True
    have avail: "getOr0 oldSet l - getOr0 m l > 0"
      using Cons.prems [of l] True by simp
    have inv: "\<And>k. getOr0 oldSet k - getOr0 (m(l \<mapsto> getOr0 m l + 1)) k
                = int (count (R - {#l#}) k)"
      using Cons.prems True by (auto simp: getOr0_def Suc_leI of_nat_diff)
    have step: "fst (matchNew oldSet ls (u + 1, m(l \<mapsto> getOr0 m l + 1))) =
                  u + 1 + int (size ((R - {#l#}) \<inter># mset ls))"
      by (rule Cons.IH [OF inv])
    have unfold: "matchNew oldSet (l # ls) (u, m) =
                  matchNew oldSet ls (u + 1, m(l \<mapsto> getOr0 m l + 1))"
      using avail by (simp only: matchNew.simps Let_def if_True)
    have "R \<inter># mset (l # ls) = add_mset l ((R - {#l#}) \<inter># mset ls)"
      using True by (simp add: inter_add_right2)
    then show ?thesis
      by (simp only: unfold step) simp
  next
    case False
    have avail: "\<not> getOr0 oldSet l - getOr0 m l > 0"
      using Cons.prems [of l] False by (simp add: not_in_iff)
    have step: "fst (matchNew oldSet ls (u, m)) = u + int (size (R \<inter># mset ls))"
      by (rule Cons.IH [OF Cons.prems])
    have unfold: "matchNew oldSet (l # ls) (u, m) = matchNew oldSet ls (u, m)"
      using avail by (simp only: matchNew.simps Let_def if_False)
    have "R \<inter># mset (l # ls) = R \<inter># mset ls"
      using False by (simp add: inter_add_right1)
    then show ?thesis
      by (simp only: unfold step)
  qed
qed

lemma diffLines_general:
  "old \<noteq> [] \<Longrightarrow> new \<noteq> [] \<Longrightarrow> old \<noteq> new \<Longrightarrow>
   diffLines old new =
     (int (size (mset (splitLines old) \<inter># mset (splitLines new))),
      int (length (splitLines new))
        - int (size (mset (splitLines old) \<inter># mset (splitLines new))),
      int (length (splitLines old))
        - int (size (mset (splitLines old) \<inter># mset (splitLines new))))"
proof -
  assume "old \<noteq> []" "new \<noteq> []" "old \<noteq> new"
  have "fst (matchNew (countOld (splitLines old) Map.empty) (splitLines new) (0, Map.empty)) =
          0 + int (size (mset (splitLines old) \<inter># mset (splitLines new)))"
  proof (rule matchNew_inter)
    fix k
    have "getOr0 Map.empty k = 0" by (simp add: getOr0_def)
    then show "getOr0 (countOld (splitLines old) Map.empty) k - getOr0 Map.empty k
                 = int (count (mset (splitLines old)) k)"
      by (simp add: getOr0_countOld)
  qed
  then show ?thesis
    using \<open>old \<noteq> []\<close> \<open>new \<noteq> []\<close> \<open>old \<noteq> new\<close>
    by (simp add: diffLines_def Let_def splitLines_def)
qed

lemma diffLines_linesOf:
  "diffLines old new =
     (int (size (mset (linesOf old) \<inter># mset (linesOf new))),
      int (length (linesOf new)) - int (size (mset (linesOf old) \<inter># mset (linesOf new))),
      int (length (linesOf old)) - int (size (mset (linesOf old) \<inter># mset (linesOf new))))"
proof (cases "old = new")
  case True
  then show ?thesis by (simp add: diffLines_def length_linesOf)
next
  case neq: False
  show ?thesis
  proof (cases "old = []")
    case True
    then show ?thesis
      using neq by (simp add: diffLines_def length_linesOf) (simp add: linesOf_def countLines_def)
  next
    case oldne: False
    show ?thesis
    proof (cases "new = []")
      case True
      then show ?thesis
        using neq oldne
        by (simp add: diffLines_def length_linesOf) (simp add: linesOf_def countLines_def)
    next
      case False
      then show ?thesis
        using diffLines_general [OF oldne False neq] oldne by (simp add: linesOf_def)
    qed
  qed
qed

text \<open>
  C4, as stated, fails at the empty string. Splitting \<open>''''\<close> on newline gives one
  (empty) element and there is no terminal newline to drop it for, so the stated line
  lists make \<open>diffLines('', 'x')\<close> remove one line; the guard on an empty old
  content returns \<open>(0, 1, 0)\<close>.
\<close>

theorem diffLines_split_counterexample:
  "diffLines [] ''x'' = (0, 1, 0)
   \<and> (int (size (mset (splitLines []) \<inter># mset (splitLines ''x''))),
       int (length (splitLines ''x''))
         - int (size (mset (splitLines []) \<inter># mset (splitLines ''x''))),
       int (length (splitLines []))
         - int (size (mset (splitLines []) \<inter># mset (splitLines ''x'')))) = (0, 1, 1)"
  by (simp add: diffLines_def countLines_def endsWithNL_def splitLines_def popTrailingEmpty_def)

text \<open>
  C4, amended: with the empty string taken to have no line (and every other content
  split on newline, the trailing empty element of a terminal newline dropped),
  \<open>diffLines\<close> returns the size of the multiset intersection of the two line lists as
  \<open>unchanged\<close>, the number of new lines less that as \<open>added\<close>, and the number of old
  lines less that as \<open>removed\<close>; the number of lines is \<open>countLines\<close>; and the three
  identities hold for every content.
\<close>

theorem diffLines_multiset:
  "diffLines old new =
     (int (size (mset (linesOf old) \<inter># mset (linesOf new))),
      int (length (linesOf new)) - int (size (mset (linesOf old) \<inter># mset (linesOf new))),
      int (length (linesOf old)) - int (size (mset (linesOf old) \<inter># mset (linesOf new))))
   \<and> int (length (linesOf old)) = countLines old
   \<and> diffLines old old = (countLines old, 0, 0)
   \<and> diffLines [] old = (0, countLines old, 0)
   \<and> diffLines old [] = (0, 0, countLines old)"
proof -
  have same: "diffLines old old = (countLines old, 0, 0)"
    by (simp add: diffLines_def)
  have from_empty: "diffLines [] old = (0, countLines old, 0)"
    by (simp add: diffLines_def countLines_def)
  have to_empty: "diffLines old [] = (0, 0, countLines old)"
    by (simp add: diffLines_def countLines_def)
  show ?thesis
    using diffLines_linesOf [of old new] same from_empty to_empty length_linesOf [of old]
    by simp
qed



section \<open>Properties of the attribution\<close>














text \<open>The self-modification estimate is a sum over the files with removed lines.\<close>

lemma selfModifiedLoop_sum:
  "selfModifiedLoop addedPerFile es n =
     n + (\<Sum>(filePath, removed) \<leftarrow> es. min removed (numOr0 addedPerFile filePath))"
  by (induction es arbitrary: n) (auto simp: Let_def)

lemma userSelfModified_attributionTotals:
  "userSelfModified (attributionTotals baseFiles shadowFiles headFiles touched pas) =
     estimateUserSelfModifications (snd (accumulate pas (0, [])))
       (snd (snd (snd (touchedLoop baseFiles shadowFiles headFiles touched (0, 0, 0, [])))))"
  by (simp add: attributionTotals_def Let_def split: prod.splits)

text \<open>
  C2, as stated, fails. The human added one line to \<open>f\<close> in an earlier turn (it is in
  the checkpoint) and removed it again before committing: \<open>totalUserAdded\<close>,
  \<open>totalUserRemoved\<close> and the self-modification estimate are all 1, so the stated
  value of \<open>humanModified\<close> is \<open>max 0 (min 1 1 - 1) = 0\<close>; the returned
  \<open>humanModified\<close> is 1.
\<close>

theorem humanModified_counterexample:
  "calculateAttributionWithAccumulated ''t'' [] [(''f'', ''a\<newline>'')] [] [''f'']
     [humanAddedOneLine] =
     Some \<lparr>calculatedAt = ''t'', agentLines = 0, humanAdded = 0, humanModified = 1,
           humanRemoved = 0, totalCommitted = 0, agentPercentage = 0\<rparr>
   \<and> attributionTotals [] [(''f'', ''a\<newline>'')] [] [''f''] [humanAddedOneLine] =
     \<lparr>totalAgentAdded = 0, totalUserAdded = 1, totalUserRemoved = 1, userSelfModified = 1\<rparr>
   \<and> max 0 (min 1 1 - 1) = (0::int)"
  by (simp add: calculateAttributionWithAccumulated_def attributionTotals_def finalSplit_def
        diffLines_def countLines_def endsWithNL_def contentOr_def numOr0_def
        getAllChangedFiles_def estimateUserSelfModifications_def humanAddedOneLine_def
        Let_def)

text \<open>
  C2, amended: the returned \<open>humanModified\<close> is \<open>min totalUserAdded totalUserRemoved\<close>,
  with nothing subtracted. The self-modification estimate (the sum, over the files the
  human removed lines from after the checkpoint, of the minimum of the lines removed and
  the lines the human had added to that file across turns) is subtracted from it, and
  floored at zero, only inside \<open>agentLines\<close>.
\<close>

theorem humanModified_total:
  "touched \<noteq> [] \<Longrightarrow>
   (\<exists>r. calculateAttributionWithAccumulated now baseFiles shadowFiles headFiles touched pas
           = Some r
      \<and> humanModified r =
          min (totalUserAdded (attributionTotals baseFiles shadowFiles headFiles touched pas))
              (totalUserRemoved (attributionTotals baseFiles shadowFiles headFiles touched pas))
      \<and> agentLines r =
          max 0 (totalAgentAdded (attributionTotals baseFiles shadowFiles headFiles touched pas)
                 - humanRemoved r
                 - max 0 (humanModified r
                          - userSelfModified
                              (attributionTotals baseFiles shadowFiles headFiles touched pas)))
      \<and> userSelfModified (attributionTotals baseFiles shadowFiles headFiles touched pas) =
          (\<Sum>(filePath, removed) \<leftarrow>
              snd (snd (snd (touchedLoop baseFiles shadowFiles headFiles touched (0, 0, 0, [])))).
            min removed (numOr0 (snd (accumulate pas (0, []))) filePath)))"
  by (simp add: calculateAttributionWithAccumulated_def finalSplit_def Let_def
        userSelfModified_attributionTotals estimateUserSelfModifications_def
        selfModifiedLoop_sum)

theorem humanModified_total_witness:
  "\<exists>r. calculateAttributionWithAccumulated ''t'' [] [(''f'', ''a\<newline>b\<newline>'')] [(''f'', ''b\<newline>'')]
          [''f''] [humanAddedOneLine] = Some r
      \<and> humanModified r =
          min (totalUserAdded (attributionTotals [] [(''f'', ''a\<newline>b\<newline>'')] [(''f'', ''b\<newline>'')]
                 [''f''] [humanAddedOneLine]))
              (totalUserRemoved (attributionTotals [] [(''f'', ''a\<newline>b\<newline>'')] [(''f'', ''b\<newline>'')]
                 [''f''] [humanAddedOneLine]))
      \<and> agentLines r =
          max 0 (totalAgentAdded (attributionTotals [] [(''f'', ''a\<newline>b\<newline>'')] [(''f'', ''b\<newline>'')]
                   [''f''] [humanAddedOneLine])
                 - humanRemoved r
                 - max 0 (humanModified r
                          - userSelfModified
                              (attributionTotals [] [(''f'', ''a\<newline>b\<newline>'')] [(''f'', ''b\<newline>'')]
                                 [''f''] [humanAddedOneLine])))
      \<and> userSelfModified (attributionTotals [] [(''f'', ''a\<newline>b\<newline>'')] [(''f'', ''b\<newline>'')]
                 [''f''] [humanAddedOneLine]) =
          (\<Sum>(filePath, removed) \<leftarrow>
              snd (snd (snd (touchedLoop [] [(''f'', ''a\<newline>b\<newline>'')] [(''f'', ''b\<newline>'')] [''f'']
                               (0, 0, 0, [])))).
            min removed (numOr0 (snd (accumulate [humanAddedOneLine] (0, []))) filePath))"
  by (rule humanModified_total) simp

text \<open>
  C3. The scenario: one agent-touched file whose base is \<open>a b c\<close>, whose checkpoint
  adds \<open>d\<close> and whose head adds \<open>e\<close>, and no prompt attribution. The result has
  \<open>agentLines = 1\<close>, \<open>humanAdded = 1\<close> and \<open>agentPercentage = 50\<close>, whatever the path
  of the file and the time of the call.
\<close>

theorem calculateAttributionWithAccumulated_scenario:
  "calculateAttributionWithAccumulated now
     [(p, ''a\<newline>b\<newline>c\<newline>'')]
     [(p, ''a\<newline>b\<newline>c\<newline>d\<newline>'')]
     [(p, ''a\<newline>b\<newline>c\<newline>d\<newline>e\<newline>'')] [p] [] =
   Some \<lparr>calculatedAt = now, agentLines = 1, humanAdded = 1, humanModified = 0,
         humanRemoved = 0, totalCommitted = 2, agentPercentage = 50\<rparr>"
  by (simp add: calculateAttributionWithAccumulated_def attributionTotals_def finalSplit_def
        diffLines_def countLines_def endsWithNL_def popTrailingEmpty_def getOr0_def
        contentOr_def getAllChangedFiles_def setAdd_def estimateUserSelfModifications_def
        Let_def)

section \<open>Properties of the content overlap\<close>

lemma extractLoop_set:
  "set (extractLoop ls acc) = set acc \<union> {t \<in> trim ` set ls. 10 \<le> length t}"
  by (induction ls arbitrary: acc) (auto simp: Let_def setAdd_def)

lemma extractLoop_distinct: "distinct acc \<Longrightarrow> distinct (extractLoop ls acc)"
  by (induction ls arbitrary: acc) (auto simp: Let_def setAdd_def)

lemma extractSignificantLines_set:
  "set (extractSignificantLines s) = significantLines s"
  by (simp add: extractSignificantLines_def significantLines_def extractLoop_set)

lemma extractSignificantLines_length:
  "length (extractSignificantLines s) = card (significantLines s)"
  using distinct_card [of "extractSignificantLines s"]
  by (simp add: extractSignificantLines_set [symmetric] extractSignificantLines_def
       extractLoop_distinct)

text \<open>The counting loop, below its threshold, against the size of the intersection.\<close>

lemma matchLoop_card:
  "distinct staged \<Longrightarrow> matchCount < required \<Longrightarrow>
   matchLoop staged shadow required matchCount
     \<longleftrightarrow> required \<le> matchCount + card (set staged \<inter> set shadow)"
proof (induction staged arbitrary: matchCount)
  case Nil
  then show ?case by simp
next
  case (Cons l ls)
  have fin: "finite (set ls \<inter> set shadow)" by simp
  show ?case
  proof (cases "l \<in> set shadow")
    case True
    have notin: "l \<notin> set ls \<inter> set shadow" using Cons.prems(1) by simp
    have "set (l # ls) \<inter> set shadow = insert l (set ls \<inter> set shadow)"
      using True by auto
    then have card: "card (set (l # ls) \<inter> set shadow) = Suc (card (set ls \<inter> set shadow))"
      using notin fin by simp
    show ?thesis
    proof (cases "matchCount + 1 \<ge> required")
      case True
      then show ?thesis using \<open>l \<in> set shadow\<close> card by simp
    next
      case False
      then have "matchCount + 1 < required" by simp
      then show ?thesis
        using Cons.IH [of "matchCount + 1"] Cons.prems(1) \<open>l \<in> set shadow\<close> card False
        by simp
    qed
  next
    case False
    then have "set (l # ls) \<inter> set shadow = set ls \<inter> set shadow" by auto
    then show ?thesis
      using Cons.IH [of matchCount] Cons.prems False by simp
  qed
qed

text \<open>
  C9. \<open>hasSignificantContentOverlap a b\<close> holds exactly when the two contents share at
  least 2 significant lines (distinct trimmed lines of at least 10 characters), or at
  least 1 when one of them has fewer than 2 significant lines; and it is false for two
  contents \<open>{\<close>, \<open>}\<close> that share boilerplate only.
\<close>

theorem hasSignificantContentOverlap_iff:
  "(hasSignificantContentOverlap a b \<longleftrightarrow>
      (if card (significantLines a) < 2 \<or> card (significantLines b) < 2 then 1 else 2)
        \<le> card (significantLines a \<inter> significantLines b))
   \<and> hasSignificantContentOverlap ''{\<newline>}\<newline>'' ''{\<newline>}\<newline>'' = False"
proof
  have fin: "finite (significantLines a)" "finite (significantLines b)"
    by (simp_all add: extractSignificantLines_set [symmetric])
  have dist: "distinct (extractSignificantLines a)"
    by (simp add: extractSignificantLines_def extractLoop_distinct)
  show "hasSignificantContentOverlap a b \<longleftrightarrow>
      (if card (significantLines a) < 2 \<or> card (significantLines b) < 2 then 1 else 2)
        \<le> card (significantLines a \<inter> significantLines b)"
  proof (cases "card (significantLines a) = 0 \<or> card (significantLines b) = 0")
    case True
    then have empty: "significantLines a \<inter> significantLines b = {}"
      using fin by auto
    have "length (extractSignificantLines a) = 0 \<or> length (extractSignificantLines b) = 0"
      using True by (simp add: extractSignificantLines_length)
    then have "\<not> hasSignificantContentOverlap a b"
      by (auto simp: hasSignificantContentOverlap_def Let_def)
    then show ?thesis
      using True empty by auto
  next
    case False
    let ?req = "if card (significantLines a) < 2 \<or> card (significantLines b) < 2
                then 1 else 2 :: nat"
    have "matchLoop (extractSignificantLines a) (extractSignificantLines b) ?req 0
            \<longleftrightarrow> ?req \<le> 0 + card (set (extractSignificantLines a)
                                   \<inter> set (extractSignificantLines b))"
      by (rule matchLoop_card [OF dist]) simp
    moreover have "extractSignificantLines a \<noteq> []" "extractSignificantLines b \<noteq> []"
      using False extractSignificantLines_length [of a] extractSignificantLines_length [of b]
      by auto
    ultimately show ?thesis
      by (simp add: hasSignificantContentOverlap_def extractSignificantLines_length
            extractSignificantLines_set Let_def disj_commute)
  qed
  show "hasSignificantContentOverlap ''{\<newline>}\<newline>'' ''{\<newline>}\<newline>'' = False"
    by (simp add: hasSignificantContentOverlap_def extractSignificantLines_def trim_def
          isWhitespace_def Let_def)
qed

lemma overlapLoop_existsInParent:
  "filePath \<in> set touched \<Longrightarrow> existsInParent git parentCommitHash filePath \<Longrightarrow>
   overlapLoop git shadowBranchName headCommitHash parentCommitHash touched"
  by (induction touched) (auto split: option.splits)

text \<open>
  C8. With a parent commit (a hash: not null, and not the empty string, which names no
  commit), if some entry of \<open>filesTouched\<close> is a path that \<open>git show\<close> finds in the
  parent, \<open>filesOverlapWithContent\<close> returns true, whatever the repository holds for
  the head commit and the shadow branch, and wherever the entry stands in the list.
\<close>

theorem filesOverlapWithContent_parent:
  "parentCommitHash = Some p \<Longrightarrow> p \<noteq> [] \<Longrightarrow> filePath \<in> set touched \<Longrightarrow>
   git [''show'', p @ '':'' @ filePath] \<noteq> None \<Longrightarrow>
   filesOverlapWithContent git shadowBranchName headCommitHash parentCommitHash touched"
proof -
  assume "parentCommitHash = Some p" "p \<noteq> []" "filePath \<in> set touched"
    "git [''show'', p @ '':'' @ filePath] \<noteq> None"
  then have "existsInParent git parentCommitHash filePath"
    by (auto simp: existsInParent_def)
  then have "overlapLoop git shadowBranchName headCommitHash parentCommitHash touched"
    using \<open>filePath \<in> set touched\<close> by (intro overlapLoop_existsInParent)
  then show ?thesis
    using \<open>filePath \<in> set touched\<close> by (auto simp: filesOverlapWithContent_def)
qed

text \<open>
  The witness: \<open>new.ts\<close> comes first and is no overlap by itself (it is not on a shadow
  branch); \<open>old.ts\<close> was in the parent and is deleted in the head.
\<close>

theorem filesOverlapWithContent_parent_witness:
  "filesOverlapWithContent sampleRepo ''entire/abc1234'' ''h1'' (Some ''p1'')
     [''new.ts'', ''old.ts'']"
  by (rule filesOverlapWithContent_parent [of "Some ''p1''" "''p1''" "''old.ts''"])
     (simp_all add: sampleRepo_def)


end
